theory Spec2Isabelle
  imports Main "HOL-Library.Char_ord" "HOL-Library.List_Lexorder" "HOL-Library.Product_Lexorder"
begin

section \<open>JavaScript string and array primitives used by the sources\<close>

text \<open>
  Strings are \<^typ>\<open>string\<close> (character lists). A character stands for the UTF-16 code
  unit with the same number, so the strings of this theory are the JavaScript strings
  whose code units are all below 256. The library methods the sources call are written
  out here: \<open>s.startsWith(p)\<close>, \<open>s.endsWith(p)\<close>, \<open>s.includes(p)\<close>, \<open>s.toLowerCase()\<close>,
  \<open>s.trim()\<close>, \<open>s.split(sep)\<close> for a one-character separator and \<open>xs.join(sep)\<close>.
  Below 256 the letters with a lower-case form are \<open>A\<close>..\<open>Z\<close> and the code units
  192..222 other than the multiplication sign 215, and the white space and line
  terminators that \<open>trim\<close> removes are the code units 9..13, the space 32 and the
  no-break space 160.
\<close>

definition startsWith :: "string \<Rightarrow> string \<Rightarrow> bool" where
  "startsWith s p = (take (length p) s = p)"

definition endsWith :: "string \<Rightarrow> string \<Rightarrow> bool" where
  "endsWith s p = (length p \<le> length s \<and> drop (length s - length p) s = p)"

fun includesStr :: "string \<Rightarrow> string \<Rightarrow> bool" where
  "includesStr [] p = (p = [])"
| "includesStr (c # cs) p = (startsWith (c # cs) p \<or> includesStr cs p)"

definition lowerChar :: "char \<Rightarrow> char" where
  "lowerChar c =
     (if (65::nat) \<le> of_char c \<and> of_char c \<le> (90::nat)
         \<or> (192::nat) \<le> of_char c \<and> of_char c \<le> (222::nat) \<and> of_char c \<noteq> (215::nat)
      then char_of (of_char c + (32::nat)) else c)"

definition toLowerCase :: "string \<Rightarrow> string" where
  "toLowerCase s = map lowerChar s"

definition isWhiteSpace :: "char \<Rightarrow> bool" where
  "isWhiteSpace c =
     ((9::nat) \<le> of_char c \<and> of_char c \<le> (13::nat)
      \<or> of_char c = (32::nat) \<or> of_char c = (160::nat))"

definition trim :: "string \<Rightarrow> string" where
  "trim s = rev (dropWhile isWhiteSpace (rev (dropWhile isWhiteSpace s)))"

text \<open>
  \<open>s.split(c)\<close>: the pieces between the occurrences of \<open>c\<close>; the empty string splits
  into one empty piece, and a trailing separator leaves an empty last piece.
\<close>

fun split :: "char \<Rightarrow> string \<Rightarrow> string list" where
  "split c [] = [[]]"
| "split c (x # xs) =
     (if x = c then [] # split c xs
      else (case split c xs of [] \<Rightarrow> [[x]] | w # ws \<Rightarrow> (x # w) # ws))"

text \<open>\<open>xs.join(sep)\<close>: the elements with \<open>sep\<close> between neighbours.\<close>

fun join :: "string \<Rightarrow> string list \<Rightarrow> string" where
  "join sep [] = []"
| "join sep [x] = x"
| "join sep (x # y # ys) = x @ sep @ join sep (y # ys)"

section \<open>Sensitivity classifier (browser.ts)\<close>

definition SENSITIVE_PATTERNS :: "string list" where
  "SENSITIVE_PATTERNS =
     [''.env'', ''.env.local'', ''.env.development'', ''.env.production'', ''.env.staging'',
      ''.ssh'', ''.aws'', ''.gcp'', ''.azure'', ''.kube'', ''.docker'', ''.npmrc'', ''.pypirc'',
      ''.netrc'', ''.gitconfig'', ''.bash_history'', ''.zsh_history'', ''secrets'', ''private'',
      ''credentials'', ''.credentials'', ''passwords'', ''.passwords'']"

definition SENSITIVE_EXTENSIONS :: "string list" where
  "SENSITIVE_EXTENSIONS = [''.pem'', ''.key'', ''.p12'', ''.pfx'', ''.jks'', ''.keystore'']"

definition SENSITIVE_KEYWORDS :: "string list" where
  "SENSITIVE_KEYWORDS =
     [''secret'', ''credential'', ''password'', ''private_key'', ''privatekey'', ''api_key'',
      ''apikey'', ''token'']"

text \<open>
  \<open>isSensitivePath(name, path)\<close>. The two \<open>for\<close> loops return true at the first
  extension, respectively keyword, that matches. \<open>lowerPath\<close> is computed and never read.
\<close>

definition isSensitivePath :: "string \<Rightarrow> string \<Rightarrow> bool" where
  "isSensitivePath name path =
     (let lowerName = toLowerCase name; lowerPath = toLowerCase path in
      if lowerName \<in> set SENSITIVE_PATTERNS then True
      else if startsWith lowerName ''.env.'' \<or> lowerName = ''.env'' then True
      else if list_ex (\<lambda>ext. endsWith lowerName ext) SENSITIVE_EXTENSIONS then True
      else if list_ex (\<lambda>keyword. includesStr lowerName keyword) SENSITIVE_KEYWORDS then True
      else if startsWith lowerName ''id_'' \<and> \<not> includesStr lowerName ''.pub'' then True
      else if startsWith lowerName ''serviceaccountkey'' \<and> endsWith lowerName ''.json'' then True
      else False)"

definition getSensitiveReason :: "string \<Rightarrow> string" where
  "getSensitiveReason name =
     (let lowerName = toLowerCase name in
      if startsWith lowerName ''.env'' then ''Environment variables may contain secrets''
      else if lowerName = ''.ssh'' \<or> startsWith lowerName ''id_'' then ''SSH keys and credentials''
      else if lowerName = ''.aws'' then ''AWS credentials''
      else if lowerName = ''.gcp'' then ''Google Cloud credentials''
      else if lowerName = ''.azure'' then ''Azure credentials''
      else if lowerName = ''.kube'' then ''Kubernetes credentials''
      else if lowerName = ''.docker'' then ''Docker credentials''
      else if lowerName = ''.npmrc'' then ''NPM authentication tokens''
      else if lowerName = ''.pypirc'' then ''PyPI authentication''
      else if lowerName = ''.netrc'' then ''Network credentials''
      else if lowerName = ''.gitconfig'' then ''Git configuration''
      else if includesStr lowerName ''history'' then ''Command history may contain secrets''
      else if includesStr lowerName ''secret'' then ''Contains \"secret\" in name''
      else if includesStr lowerName ''credential'' then ''Contains \"credential\" in name''
      else if includesStr lowerName ''password'' then ''Contains \"password\" in name''
      else if includesStr lowerName ''private'' then ''Private data''
      else if includesStr lowerName ''token'' then ''May contain authentication tokens''
      else if includesStr lowerName ''api_key'' \<or> includesStr lowerName ''apikey''
        then ''May contain API keys''
      else if endsWith lowerName ''.pem'' \<or> endsWith lowerName ''.key'' then ''Private key file''
      else if endsWith lowerName ''.p12'' \<or> endsWith lowerName ''.pfx''
        then ''Certificate with private key''
      else if endsWith lowerName ''.jks'' \<or> endsWith lowerName ''.keystore'' then ''Java keystore''
      else if startsWith lowerName ''serviceaccount'' then ''Service account credentials''
      else ''Potentially sensitive file'')"

section \<open>Filesystem tree builder (browser.ts)\<close>

text \<open>
  The \<open>FileNode\<close> interface. \<open>children\<close> is \<open>None\<close> where the source leaves the field
  undefined (entries that are not directories).
\<close>

datatype FileNode = FileNode
  (fn_name: string)
  (fn_path: string)
  (fn_relativePath: string)
  (fn_isDirectory: bool)
  (fn_children: "FileNode list option")
  (fn_expanded: bool)
  (fn_selected: bool)
  (fn_depth: nat)
  (fn_isSensitive: bool)

text \<open>A directory entry as \<open>readdir\<close> with \<open>withFileTypes\<close> returns it.\<close>

record Dirent =
  d_name :: string
  d_isDirectory :: bool

text \<open>
  What the builder takes from its platform: \<open>readdir\<close> (\<open>None\<close> when it throws),
  \<open>String.prototype.localeCompare\<close>, and \<open>join\<close> and \<open>relative\<close> of the \<open>path\<close> module.
\<close>

record Platform =
  readdir :: "string \<Rightarrow> Dirent list option"
  localeCompare :: "string \<Rightarrow> string \<Rightarrow> int"
  pathJoin :: "string \<Rightarrow> string \<Rightarrow> string"
  pathRelative :: "string \<Rightarrow> string \<Rightarrow> string"

definition SYSTEM_HIDDEN :: "string list" where
  "SYSTEM_HIDDEN =
     [''Library'', ''Applications'', ''System'', ''Volumes'', ''private'', ''usr'', ''bin'',
      ''sbin'', ''etc'', ''var'', ''tmp'', ''cores'', ''opt'', ''node_modules'', ''.git'',
      ''.Trash'', ''.cache'', ''.npm'', ''.nvm'']"

text \<open>
  \<open>Array.prototype.sort\<close> with a comparison function: a stable sort, written as
  insertion from the right. An element goes in front of the first element it does not
  compare greater than.
\<close>

fun insertBy :: "('a \<Rightarrow> 'a \<Rightarrow> int) \<Rightarrow> 'a \<Rightarrow> 'a list \<Rightarrow> 'a list" where
  "insertBy cmp x [] = [x]"
| "insertBy cmp x (y # ys) = (if cmp x y \<le> 0 then x # y # ys else y # insertBy cmp x ys)"

definition sortBy :: "('a \<Rightarrow> 'a \<Rightarrow> int) \<Rightarrow> 'a list \<Rightarrow> 'a list" where
  "sortBy cmp xs = foldr (insertBy cmp) xs []"

text \<open>The comparison function \<open>buildFileTree\<close> passes to \<open>sort\<close>.\<close>

definition compareEntries :: "(string \<Rightarrow> string \<Rightarrow> int) \<Rightarrow> Dirent \<Rightarrow> Dirent \<Rightarrow> int" where
  "compareEntries lc a b =
     (if d_isDirectory a \<and> \<not> d_isDirectory b then - 1
      else if \<not> d_isDirectory a \<and> d_isDirectory b then 1
      else lc (d_name a) (d_name b))"

text \<open>The two \<open>continue\<close> conditions at the head of the loop body.\<close>

definition skipEntry :: "nat \<Rightarrow> Dirent \<Rightarrow> bool" where
  "skipEntry depth entry =
     (if depth = 0 \<and> d_name entry \<in> set SYSTEM_HIDDEN then True
      else if startsWith (d_name entry) ''.'' \<and> \<not> startsWith (d_name entry) ''.env''
              \<and> \<not> startsWith (d_name entry) ''.openclaw''
      then \<not> list_ex (\<lambda>s. includesStr (d_name entry) s) [''ssh'', ''aws'', ''config'', ''kube'']
      else False)"

function buildFileTree ::
  "Platform \<Rightarrow> string \<Rightarrow> string \<Rightarrow> nat \<Rightarrow> nat \<Rightarrow> FileNode list" where
  "buildFileTree pf dir rootPath depth maxDepth =
     (if depth \<ge> maxDepth then []
      else (case readdir pf dir of
              None \<Rightarrow> []
            | Some entries \<Rightarrow>
                concat (map
                  (\<lambda>entry.
                     if skipEntry depth entry then []
                     else (let fullPath = pathJoin pf dir (d_name entry);
                               relativePath =
                                 (if pathRelative pf rootPath fullPath = [] then d_name entry
                                  else pathRelative pf rootPath fullPath);
                               sensitive = isSensitivePath (d_name entry) fullPath
                           in [FileNode (d_name entry) fullPath relativePath
                                 (d_isDirectory entry)
                                 (if d_isDirectory entry
                                  then Some (buildFileTree pf fullPath rootPath (depth + 1) maxDepth)
                                  else None)
                                 False False depth sensitive]))
                  (sortBy (compareEntries (localeCompare pf)) entries))))"
  by pat_completeness auto
termination
  by (relation "measure (\<lambda>(pf, dir, rootPath, depth, maxDepth). maxDepth - depth)") auto

declare buildFileTree.simps [simp del]

section \<open>Selection browser, full-browse phase (browser.ts)\<close>

text \<open>
  \<open>flattenTree\<close>: every node of the list in order, each followed by the flattening of
  its children when it is an expanded directory.
\<close>

fun flattenNode :: "FileNode \<Rightarrow> FileNode list" where
  "flattenNode (FileNode n p r d cs e s dp sens) =
     FileNode n p r d cs e s dp sens #
       (if d \<and> e then (case cs of Some c \<Rightarrow> concat (map flattenNode c) | None \<Rightarrow> []) else [])"

definition flattenTree :: "FileNode list \<Rightarrow> FileNode list" where
  "flattenTree tree = concat (map flattenNode tree)"

text \<open>
  The nodes of \<open>flatList\<close> are the node objects of \<open>tree\<close> themselves, so the assignment
  \<open>node.expanded = v\<close> to \<open>flatList[i]\<close> changes the tree. \<open>setExpandedAt i v tree\<close> is
  the tree after that assignment: the node that \<open>flattenTree\<close> lists at position \<open>i\<close>
  has its flag set to \<open>v\<close>.
\<close>

fun setExpandedAt :: "nat \<Rightarrow> bool \<Rightarrow> FileNode list \<Rightarrow> FileNode list"
  and setExpandedIn :: "nat \<Rightarrow> bool \<Rightarrow> FileNode \<Rightarrow> FileNode" where
  "setExpandedAt i v [] = []"
| "setExpandedAt i v (node # nodes) =
     (if i < length (flattenNode node) then setExpandedIn i v node # nodes
      else node # setExpandedAt (i - length (flattenNode node)) v nodes)"
| "setExpandedIn 0 v (FileNode n p r d cs e s dp sens) = FileNode n p r d cs v s dp sens"
| "setExpandedIn (Suc i) v (FileNode n p r d cs e s dp sens) =
     FileNode n p r d (case cs of Some c \<Rightarrow> Some (setExpandedAt i v c) | None \<Rightarrow> None)
       e s dp sens"

text \<open>
  A JavaScript \<open>Set\<close> of strings keeps its members in insertion order; it is a list
  without repetitions here. \<open>setAdd\<close> is \<open>add\<close>, \<open>setDelete\<close> is \<open>delete\<close>, and membership
  in the list is \<open>has\<close>.
\<close>

definition setAdd :: "string \<Rightarrow> string list \<Rightarrow> string list" where
  "setAdd x xs = (if x \<in> set xs then xs else xs @ [x])"

definition setDelete :: "string \<Rightarrow> string list \<Rightarrow> string list" where
  "setDelete x xs = filter (\<lambda>y. y \<noteq> x) xs"

record BrowseResult =
  r_ignoredPaths :: "string list"
  r_allPaths :: "string list"

text \<open>The variables \<open>runIgnoreBrowser\<close> keeps between key presses.\<close>

record BrowserState =
  tree :: "FileNode list"
  flatList :: "FileNode list"
  cursor :: int
  selected :: "string list"

text \<open>The fields of \<open>readline.Key\<close> that the handler reads.\<close>

record Key =
  key_name :: string
  key_ctrl :: bool

text \<open>
  A key press either leaves the browser waiting for the next key or resolves the promise.
  Reading a field of \<open>flatList[cursor]\<close> when there is no such element throws a
  \<open>TypeError\<close>.
\<close>

datatype Step = Pending BrowserState | Resolved BrowseResult

datatype error = TypeError

definition nodeAt :: "FileNode list \<Rightarrow> int \<Rightarrow> FileNode option" where
  "nodeAt nodes i = (if 0 \<le> i \<and> i < int (length nodes) then Some (nodes ! nat i) else None)"

text \<open>The two loops of the \<open>space\<close> branch over \<open>flatList\<close>.\<close>

definition deselectChildren :: "FileNode \<Rightarrow> FileNode list \<Rightarrow> string list \<Rightarrow> string list" where
  "deselectChildren node nodes sel =
     fold (\<lambda>child s. if startsWith (fn_path child) (fn_path node @ ''/'')
                      then setDelete (fn_path child) s else s) nodes sel"

definition selectChildren :: "FileNode \<Rightarrow> FileNode list \<Rightarrow> string list \<Rightarrow> string list" where
  "selectChildren node nodes sel =
     fold (\<lambda>child s. if startsWith (fn_path child) (fn_path node @ ''/'')
                      then setAdd (fn_path child) s else s) nodes sel"

text \<open>The \<open>space\<close> branch: the selection after toggling \<open>node\<close>.\<close>

definition toggleSelection :: "FileNode \<Rightarrow> FileNode list \<Rightarrow> string list \<Rightarrow> string list" where
  "toggleSelection node nodes sel =
     (if fn_path node \<in> set sel
      then (let sel' = setDelete (fn_path node) sel in
            if fn_isDirectory node then deselectChildren node nodes sel' else sel')
      else (let sel' = setAdd (fn_path node) sel in
            if fn_isDirectory node then selectChildren node nodes sel' else sel'))"

text \<open>
  The filter of the \<open>return\<close> branch: a selected path is kept unless one of the joins of
  its first \<open>i\<close> parts, \<open>1 \<le> i < parts.length\<close>, is selected.
\<close>

definition noParentSelected :: "string list \<Rightarrow> string \<Rightarrow> bool" where
  "noParentSelected sel p =
     (let parts = split (CHR ''/'') p in
      \<not> list_ex (\<lambda>i. join ''/'' (take i parts) \<in> set sel) [1 ..< length parts])"

definition confirmResult :: "BrowserState \<Rightarrow> BrowseResult" where
  "confirmResult st =
     \<lparr>r_ignoredPaths = filter (noParentSelected (selected st)) (selected st),
      r_allPaths = map fn_path (filter (\<lambda>n. fn_depth n = 0) (flatList st))\<rparr>"

text \<open>
  \<open>handleKeypress\<close> of \<open>runIgnoreBrowser\<close>. The argument is \<open>None\<close> when \<open>key\<close> is
  undefined. Rendering draws the state and changes nothing.
\<close>

definition handleKeypress :: "Key option \<Rightarrow> BrowserState \<Rightarrow> error + Step" where
  "handleKeypress k st =
     (case k of
        None \<Rightarrow> Inr (Pending st)
      | Some key \<Rightarrow>
          if key_name key = ''up'' \<or> key_name key = ''k''
          then Inr (Pending (st\<lparr>cursor := max 0 (cursor st - 1)\<rparr>))
          else if key_name key = ''down'' \<or> key_name key = ''j''
          then Inr (Pending (st\<lparr>cursor := min (int (length (flatList st)) - 1) (cursor st + 1)\<rparr>))
          else if key_name key = ''space''
          then (case nodeAt (flatList st) (cursor st) of
                  None \<Rightarrow> Inl TypeError
                | Some node \<Rightarrow>
                    Inr (Pending (st\<lparr>selected := toggleSelection node (flatList st) (selected st)\<rparr>)))
          else if key_name key = ''right'' \<or> key_name key = ''l''
          then (case nodeAt (flatList st) (cursor st) of
                  None \<Rightarrow> Inl TypeError
                | Some node \<Rightarrow>
                    if fn_isDirectory node \<and> \<not> fn_expanded node
                    then (let tree' = setExpandedAt (nat (cursor st)) True (tree st)
                          in Inr (Pending (st\<lparr>tree := tree', flatList := flattenTree tree'\<rparr>)))
                    else Inr (Pending st))
          else if key_name key = ''left'' \<or> key_name key = ''h''
          then (case nodeAt (flatList st) (cursor st) of
                  None \<Rightarrow> Inl TypeError
                | Some node \<Rightarrow>
                    if fn_isDirectory node \<and> fn_expanded node
                    then (let tree' = setExpandedAt (nat (cursor st)) False (tree st);
                              flatList' = flattenTree tree'
                          in Inr (Pending (st\<lparr>tree := tree', flatList := flatList',
                                cursor := min (cursor st) (int (length flatList') - 1)\<rparr>)))
                    else Inr (Pending st))
          else if key_name key = ''return''
          then Inr (Resolved (confirmResult st))
          else if key_name key = ''escape'' \<or> (key_ctrl key \<and> key_name key = ''c'')
          then Inr (Resolved \<lparr>r_ignoredPaths = [], r_allPaths = []\<rparr>)
          else Inr (Pending st))"

text \<open>
  The browser started on a tree with the selection of the review phase, and a sequence of
  key presses fed to it. After the promise is resolved, or after an exception, no further
  key is handled.
\<close>

definition initialState :: "FileNode list \<Rightarrow> string list \<Rightarrow> BrowserState" where
  "initialState t preSelectedPaths =
     \<lparr>tree = t, flatList = flattenTree t, cursor = 0, selected = preSelectedPaths\<rparr>"

fun runKeys :: "Key option list \<Rightarrow> BrowserState \<Rightarrow> error + Step" where
  "runKeys [] st = Inr (Pending st)"
| "runKeys (k # ks) st =
     (case handleKeypress k st of
        Inl e \<Rightarrow> Inl e
      | Inr (Resolved r) \<Rightarrow> Inr (Resolved r)
      | Inr (Pending st') \<Rightarrow> runKeys ks st')"

definition keyNamed :: "string \<Rightarrow> Key option" where
  "keyNamed n = Some \<lparr>key_name = n, key_ctrl = False\<rparr>"

section \<open>Mount plan compiler (docker-generator.ts)\<close>

text \<open>
  \<open>isIgnored(path, ignoredPaths)\<close>: the loop returns true at the first ignored entry
  that equals the path or is a lexical ancestor of it, and false when the list is exhausted.
\<close>

fun isIgnored :: "string \<Rightarrow> string list \<Rightarrow> bool" where
  "isIgnored path [] = False"
| "isIgnored path (ignored # rest) =
     (if path = ignored \<or> startsWith path (ignored @ ''/'') then True
      else isIgnored path rest)"

text \<open>
  The first computation of \<open>generateDockerCompose\<close>:
  \<open>pathsToMount = allPaths.filter(p => !isIgnored(p, ignoredPaths))\<close>.
\<close>

definition pathsToMount :: "string list \<Rightarrow> string list \<Rightarrow> string list" where
  "pathsToMount allPaths ignoredPaths = filter (\<lambda>p. \<not> isIgnored p ignoredPaths) allPaths"

text \<open>
  \<open>basename\<close> of Node's \<open>path\<close> module (POSIX): trailing slashes are skipped, and the
  result is what lies between the last remaining slash and the end.
\<close>

definition basename :: "string \<Rightarrow> string" where
  "basename p = rev (takeWhile (\<lambda>c. c \<noteq> CHR ''/'') (dropWhile (\<lambda>c. c = CHR ''/'') (rev p)))"

text \<open>
  A volume mount. The source pushes the string \<open>host:container\<close> or \<open>host:container:ro\<close>;
  the three parts of each template literal are kept apart here and \<open>renderMount\<close> puts
  them together again.
\<close>

record Mount =
  hostPath :: string
  containerPath :: string
  readOnly :: bool

definition renderMount :: "Mount \<Rightarrow> string" where
  "renderMount m = hostPath m @ '':'' @ containerPath m @ (if readOnly m then '':ro'' else [])"

definition runtimeDirs :: "string list" where
  "runtimeDirs = [''memory'', ''logs'', ''canvas'', ''media'', ''cron'', ''agents'',
     ''subagents'', ''telegram'', ''delivery-queue'', ''devices'', ''identity'']"

text \<open>
  The mounts \<open>generateVolumeMounts\<close> pushes before it looks at \<open>pathsToMount\<close>;
  \<open>home\<close> is the value of \<open>homedir()\<close>.
\<close>

definition baselineMounts :: "string \<Rightarrow> Mount list" where
  "baselineMounts home =
     [\<lparr>hostPath = home @ ''/.openclaw/openclaw.docker.json'',
       containerPath = ''/home/node/.openclaw/openclaw.json'', readOnly = True\<rparr>,
      \<lparr>hostPath = home @ ''/.openclaw/credentials'',
       containerPath = ''/home/node/.openclaw/credentials'', readOnly = True\<rparr>]
     @ map (\<lambda>dir. \<lparr>hostPath = home @ ''/.openclaw/'' @ dir,
                     containerPath = ''/home/node/.openclaw/'' @ dir, readOnly = False\<rparr>)
         runtimeDirs
     @ [\<lparr>hostPath = home @ ''/.openclaw/.clawignore'',
         containerPath = ''/home/node/.openclaw/.clawignore'', readOnly = True\<rparr>,
        \<lparr>hostPath = home @ ''/.openclaw/workspace'',
         containerPath = ''/home/node/.openclaw/workspace'', readOnly = False\<rparr>]"

text \<open>
  The loop over \<open>pathsToMount\<close>. \<open>stat p\<close> is \<open>None\<close> when \<open>stat\<close> throws, and otherwise
  \<open>Some d\<close> with \<open>d\<close> the answer of \<open>isDirectory()\<close>. Each \<open>continue\<close> of the source
  is a branch that goes on with the rest of the list.
\<close>

fun userMounts :: "(string \<Rightarrow> bool option) \<Rightarrow> string list \<Rightarrow> Mount list" where
  "userMounts stat [] = []"
| "userMounts stat (sourcePath # rest) =
     (let mountName = basename sourcePath in
      if mountName = ''.openclaw'' \<or> endsWith sourcePath ''/.openclaw''
      then userMounts stat rest
      else (case stat sourcePath of
              None \<Rightarrow> userMounts stat rest
            | Some isDir \<Rightarrow>
                if \<not> isDir then userMounts stat rest
                else \<lparr>hostPath = sourcePath,
                      containerPath = ''/home/node/.openclaw/workspace/'' @ mountName,
                      readOnly = False\<rparr> # userMounts stat rest))"

definition generateVolumeMountEntries ::
  "string \<Rightarrow> (string \<Rightarrow> bool option) \<Rightarrow> string list \<Rightarrow> Mount list" where
  "generateVolumeMountEntries home stat paths = baselineMounts home @ userMounts stat paths"

definition generateVolumeMounts ::
  "string \<Rightarrow> (string \<Rightarrow> bool option) \<Rightarrow> string list \<Rightarrow> string list" where
  "generateVolumeMounts home stat paths =
     map renderMount (generateVolumeMountEntries home stat paths)"

text \<open>The source paths for which the loop of \<open>generateVolumeMounts\<close> reaches its \<open>push\<close>.\<close>

definition mountedSources :: "(string \<Rightarrow> bool option) \<Rightarrow> string list \<Rightarrow> string list" where
  "mountedSources stat paths =
     filter (\<lambda>p. \<not> (basename p = ''.openclaw'' \<or> endsWith p ''/.openclaw'') \<and> stat p = Some True)
       paths"

abbreviation newline :: char where
  "newline \<equiv> CHR 0x0A"

text \<open>\<open>generateClawignore\<close>: four fixed lines, then one line per ignored path.\<close>

definition generateClawignore :: "string list \<Rightarrow> string" where
  "generateClawignore ignoredPaths =
     join [newline]
       ([''# Clawignore - Files hidden from OpenClaw'',
         ''# Generated by clawignore'',
         ''# These paths are NOT mounted into the Docker container'',
         ''''] @ ignoredPaths)
     @ [newline]"

text \<open>
  The reader in \<open>regenerateDockerCompose\<close>:
  \<open>content.split('\n').map(line => line.trim()).filter(line => line && !line.startsWith('#'))\<close>.
\<close>

definition readClawignore :: "string \<Rightarrow> string list" where
  "readClawignore content =
     filter (\<lambda>line. line \<noteq> [] \<and> \<not> startsWith line ''#'')
       (map trim (split newline content))"

text \<open>
  The category headers of the other ignore-list writer (\<open>writeClawignore\<close>, table
  \<open>CATEGORY_COMMENTS\<close>).
\<close>

definition CATEGORY_COMMENTS :: "(string \<times> string) list" where
  "CATEGORY_COMMENTS =
     [(''secrets'', ''# Secrets & environment variables''),
      (''credentials'', ''# Credentials & auth tokens''),
      (''keys'', ''# Private keys & certificates''),
      (''config'', ''# Configuration files''),
      (''data'', ''# Data files''),
      (''custom'', ''# Custom patterns'')]"

text \<open>
  The header a line stands under: the nearest comment line above its first occurrence,
  \<open>None\<close> when there is no such line or no comment above it.
\<close>

fun headerAbove :: "string option \<Rightarrow> string \<Rightarrow> string list \<Rightarrow> string option" where
  "headerAbove h l [] = None"
| "headerAbove h l (x # xs) =
     (if x = l then h
      else headerAbove (if startsWith x ''#'' then Some x else h) l xs)"

section \<open>Auxiliary notions and example inputs\<close>

text \<open>
  A comparison function is consistent when "not greater" is total and transitive; only
  then does \<open>Array.prototype.sort\<close> promise a sorted result.
\<close>

definition consistentComparator :: "('a \<Rightarrow> 'a \<Rightarrow> int) \<Rightarrow> bool" where
  "consistentComparator cmp \<longleftrightarrow>
     (\<forall>a b. cmp a b \<le> 0 \<or> cmp b a \<le> 0)
     \<and> (\<forall>a b c. cmp a b \<le> 0 \<and> cmp b c \<le> 0 \<longrightarrow> cmp a c \<le> 0)"

text \<open>
  Lexicographic comparison of two names, code unit by code unit.
\<close>

definition codeUnitCompare :: "string \<Rightarrow> string \<Rightarrow> int" where
  "codeUnitCompare a b = (if a < b then - 1 else if a = b then 0 else 1)"

text \<open>
  \<open>String.prototype.localeCompare\<close> with its default options, in an English locale, on
  strings of printable ASCII characters (code units 32..126). The collation compares
  first the primary weights of the characters, where upper and lower case of a letter
  weigh the same and the order is the space, the punctuation and symbols in the order of
  \<open>collationOrder\<close>, the digits and then the letters; strings equal there are compared by
  case, lower before upper. On other characters the definition says nothing about the
  platform.
\<close>

fun indexOf :: "'a \<Rightarrow> 'a list \<Rightarrow> nat" where
  "indexOf x [] = 0"
| "indexOf x (y # ys) = (if x = y then 0 else Suc (indexOf x ys))"

definition collationOrder :: string where
  "collationOrder =
     '' _-,;:!?.'' @ [CHR 0x27, CHR 0x22] @ ''()[]{}@*/'' @ [CHR 0x5C] @ ''&#%'' @ [CHR 0x60]
     @ ''^+<=>|~$0123456789abcdefghijklmnopqrstuvwxyz''"

definition primaryWeight :: "char \<Rightarrow> nat" where
  "primaryWeight c = indexOf (lowerChar c) collationOrder"

definition caseWeight :: "char \<Rightarrow> nat" where
  "caseWeight c = (if lowerChar c = c then 0 else 1)"

definition collationKey :: "string \<Rightarrow> nat list \<times> nat list" where
  "collationKey s = (map primaryWeight s, map caseWeight s)"

definition asciiLocaleCompare :: "string \<Rightarrow> string \<Rightarrow> int" where
  "asciiLocaleCompare a b =
     (if collationKey a < collationKey b then - 1
      else if collationKey a = collationKey b then 0 else 1)"

text \<open>
  The order of siblings: no file before a directory, and names in the order of the
  comparison \<open>lc\<close> among directories and among files. \<open>childrenSorted\<close> says that every
  list of children inside a node is in that order.
\<close>

definition siblingOrder :: "(string \<Rightarrow> string \<Rightarrow> int) \<Rightarrow> FileNode \<Rightarrow> FileNode \<Rightarrow> bool" where
  "siblingOrder lc a b \<longleftrightarrow>
     (fn_isDirectory b \<longrightarrow> fn_isDirectory a)
     \<and> (fn_isDirectory a = fn_isDirectory b \<longrightarrow> lc (fn_name a) (fn_name b) \<le> 0)"

fun childrenSorted :: "(string \<Rightarrow> string \<Rightarrow> int) \<Rightarrow> FileNode \<Rightarrow> bool" where
  "childrenSorted lc (FileNode n p r d cs e s dp sens) =
     (case cs of
        None \<Rightarrow> True
      | Some c \<Rightarrow> sorted_wrt (siblingOrder lc) c \<and> list_all (childrenSorted lc) c)"

text \<open>
  Every node of a tree, whether its ancestors are expanded or not: the traversal of
  \<open>collectSensitiveFiles\<close> without its test.
\<close>

fun knownNode :: "FileNode \<Rightarrow> FileNode list" where
  "knownNode (FileNode n p r d cs e s dp sens) =
     FileNode n p r d cs e s dp sens #
       (case cs of Some c \<Rightarrow> concat (map knownNode c) | None \<Rightarrow> [])"

definition knownNodes :: "FileNode list \<Rightarrow> FileNode list" where
  "knownNodes t = concat (map knownNode t)"

text \<open>The paths of the nodes of a list that lie lexically below a node.\<close>

definition descendantPaths :: "FileNode \<Rightarrow> FileNode list \<Rightarrow> string list" where
  "descendantPaths node nodes =
     map fn_path (filter (\<lambda>c. startsWith (fn_path c) (fn_path node @ ''/'')) nodes)"

text \<open>The selection after a sequence of key presses that leaves the browser open.\<close>

definition selectionAfter :: "Key option list \<Rightarrow> BrowserState \<Rightarrow> string list option" where
  "selectionAfter keys st =
     (case runKeys keys st of Inr (Pending st') \<Rightarrow> Some (selected st') | _ \<Rightarrow> None)"

text \<open>
  A small home directory: the directory \<open>/h/d\<close> with the files \<open>a\<close> and \<open>b\<close>, and the
  file \<open>/h/e\<close>. \<open>demoTree e\<close> is its tree with the directory's \<open>expanded\<close> flag \<open>e\<close>.
\<close>

definition demoA :: FileNode where
  "demoA = FileNode ''a'' ''/h/d/a'' ''d/a'' False None False False 1 False"

definition demoB :: FileNode where
  "demoB = FileNode ''b'' ''/h/d/b'' ''d/b'' False None False False 1 False"

definition demoDir :: "bool \<Rightarrow> FileNode" where
  "demoDir e = FileNode ''d'' ''/h/d'' ''d'' True (Some [demoA, demoB]) e False 0 False"

definition demoE :: FileNode where
  "demoE = FileNode ''e'' ''/h/e'' ''e'' False None False False 0 False"

definition demoTree :: "bool \<Rightarrow> FileNode list" where
  "demoTree e = [demoDir e, demoE]"

text \<open>
  A platform whose \<open>/home/u\<close> holds four files and three directories, one of them
  \<open>.git\<close>, and whose \<open>/home/u/src\<close> holds three files and a directory; the other
  directories cannot be read. All names are printable ASCII.
\<close>

definition demoPlatform :: Platform where
  "demoPlatform =
     \<lparr>readdir = (\<lambda>d. if d = ''/home/u''
                      then Some [\<lparr>d_name = ''notes.txt'', d_isDirectory = False\<rparr>,
                                 \<lparr>d_name = ''src'', d_isDirectory = True\<rparr>,
                                 \<lparr>d_name = ''.git'', d_isDirectory = True\<rparr>,
                                 \<lparr>d_name = ''Documents'', d_isDirectory = True\<rparr>,
                                 \<lparr>d_name = ''Zeta'', d_isDirectory = False\<rparr>,
                                 \<lparr>d_name = ''alpha'', d_isDirectory = False\<rparr>,
                                 \<lparr>d_name = ''a.txt'', d_isDirectory = False\<rparr>]
                      else if d = ''/home/u/src''
                      then Some [\<lparr>d_name = ''main.ts'', d_isDirectory = False\<rparr>,
                                 \<lparr>d_name = ''.env'', d_isDirectory = False\<rparr>,
                                 \<lparr>d_name = ''.DS_Store'', d_isDirectory = False\<rparr>,
                                 \<lparr>d_name = ''lib'', d_isDirectory = True\<rparr>]
                      else None),
      localeCompare = asciiLocaleCompare,
      pathJoin = (\<lambda>d n. d @ ''/'' @ n),
      pathRelative = (\<lambda>r f. drop (length r + 1) f)\<rparr>"

section \<open>Properties\<close>

subsection \<open>Denial is monotone\<close>

lemma isIgnored_iff:
  "isIgnored p xs \<longleftrightarrow> (\<exists>i \<in> set xs. p = i \<or> startsWith p (i @ ''/''))"
  by (induction xs) auto

text \<open>
  Claim C9. Denial is monotone: when every element of the ignored list \<open>A\<close> occurs in
  the ignored list \<open>B\<close>, every path ignored under \<open>A\<close> is ignored under \<open>B\<close>, and the
  paths the compiler mounts for \<open>B\<close> are among those it mounts for \<open>A\<close>.
\<close>

theorem isIgnored_monotone:
  assumes "set A \<subseteq> set B"
  shows "(isIgnored p A \<longrightarrow> isIgnored p B)
       \<and> set (pathsToMount allPaths B) \<subseteq> set (pathsToMount allPaths A)"
  using assms unfolding pathsToMount_def isIgnored_iff by auto

theorem isIgnored_monotone_witness:
  "set [''/home/u/.ssh''] \<subseteq> set [''/home/u/project'', ''/home/u/.ssh'']
   \<and> isIgnored ''/home/u/.ssh/id_rsa'' [''/home/u/.ssh'']
   \<and> isIgnored ''/home/u/.ssh/id_rsa'' [''/home/u/project'', ''/home/u/.ssh'']
   \<and> set (pathsToMount [''/home/u/Documents'', ''/home/u/.ssh'', ''/home/u/project'']
             [''/home/u/project'', ''/home/u/.ssh''])
     \<subseteq> set (pathsToMount [''/home/u/Documents'', ''/home/u/.ssh'', ''/home/u/project'']
             [''/home/u/.ssh''])"
proof -
  have sub: "set [''/home/u/.ssh''] \<subseteq> set [''/home/u/project'', ''/home/u/.ssh'']"
    by simp
  have ign: "isIgnored ''/home/u/.ssh/id_rsa'' [''/home/u/.ssh'']"
    by (simp add: startsWith_def)
  from isIgnored_monotone [OF sub, of "''/home/u/.ssh/id_rsa''"
      "[''/home/u/Documents'', ''/home/u/.ssh'', ''/home/u/project'']"] sub ign
  show ?thesis by blast
qed

subsection \<open>Container paths of the generated mounts\<close>

lemma userMounts_eq:
  "userMounts stat paths =
     map (\<lambda>p. \<lparr>hostPath = p, containerPath = ''/home/node/.openclaw/workspace/'' @ basename p,
                readOnly = False\<rparr>) (mountedSources stat paths)"
  by (induction paths) (auto simp: mountedSources_def Let_def split: option.splits)

lemma containerPath_userMounts:
  "map containerPath (userMounts stat paths) =
     map (\<lambda>p. ''/home/node/.openclaw/workspace/'' @ basename p) (mountedSources stat paths)"
  by (simp add: userMounts_eq o_def)

lemma containerPath_baselineMounts:
  "map containerPath (baselineMounts home) =
     [''/home/node/.openclaw/openclaw.json'', ''/home/node/.openclaw/credentials'',
      ''/home/node/.openclaw/memory'', ''/home/node/.openclaw/logs'',
      ''/home/node/.openclaw/canvas'', ''/home/node/.openclaw/media'',
      ''/home/node/.openclaw/cron'', ''/home/node/.openclaw/agents'',
      ''/home/node/.openclaw/subagents'', ''/home/node/.openclaw/telegram'',
      ''/home/node/.openclaw/delivery-queue'', ''/home/node/.openclaw/devices'',
      ''/home/node/.openclaw/identity'', ''/home/node/.openclaw/.clawignore'',
      ''/home/node/.openclaw/workspace'']"
  by (simp add: baselineMounts_def runtimeDirs_def)

lemma baseline_distinct: "distinct (map containerPath (baselineMounts home))"
  unfolding containerPath_baselineMounts by simp

lemma baseline_not_workspace_child:
  "b \<in> set (map containerPath (baselineMounts home)) \<Longrightarrow>
   b \<noteq> ''/home/node/.openclaw/workspace/'' @ x"
  unfolding containerPath_baselineMounts by auto

lemma distinct_workspace_children:
  "distinct (map (\<lambda>p. ''/home/node/.openclaw/workspace/'' @ basename p) ps)
   = distinct (map basename ps)"
proof -
  have eq: "map (\<lambda>p. ''/home/node/.openclaw/workspace/'' @ basename p) ps
      = map ((@) ''/home/node/.openclaw/workspace/'') (map basename ps)" by simp
  have "inj_on ((@) ''/home/node/.openclaw/workspace/'') (set (map basename ps))"
    by (rule inj_onI) simp
  then show ?thesis
    unfolding eq by (simp only: distinct_map) simp
qed

text \<open>
  Claim C1, as stated, fails: with \<open>/a/data\<close> and \<open>/b/data\<close> both directories, the
  compiler emits both as \<open>/home/node/.openclaw/workspace/data\<close>. Nothing in
  \<open>generateVolumeMounts\<close> compares a container path with an earlier one.
\<close>

theorem generateVolumeMounts_collision:
  "generateVolumeMounts ''/home/u'' (\<lambda>p. Some True) [''/a/data'', ''/b/data'']
   = [''/home/u/.openclaw/openclaw.docker.json:/home/node/.openclaw/openclaw.json:ro'',
      ''/home/u/.openclaw/credentials:/home/node/.openclaw/credentials:ro'',
      ''/home/u/.openclaw/memory:/home/node/.openclaw/memory'',
      ''/home/u/.openclaw/logs:/home/node/.openclaw/logs'',
      ''/home/u/.openclaw/canvas:/home/node/.openclaw/canvas'',
      ''/home/u/.openclaw/media:/home/node/.openclaw/media'',
      ''/home/u/.openclaw/cron:/home/node/.openclaw/cron'',
      ''/home/u/.openclaw/agents:/home/node/.openclaw/agents'',
      ''/home/u/.openclaw/subagents:/home/node/.openclaw/subagents'',
      ''/home/u/.openclaw/telegram:/home/node/.openclaw/telegram'',
      ''/home/u/.openclaw/delivery-queue:/home/node/.openclaw/delivery-queue'',
      ''/home/u/.openclaw/devices:/home/node/.openclaw/devices'',
      ''/home/u/.openclaw/identity:/home/node/.openclaw/identity'',
      ''/home/u/.openclaw/.clawignore:/home/node/.openclaw/.clawignore:ro'',
      ''/home/u/.openclaw/workspace:/home/node/.openclaw/workspace'',
      ''/a/data:/home/node/.openclaw/workspace/data'',
      ''/b/data:/home/node/.openclaw/workspace/data'']
   \<and> \<not> distinct (map containerPath
          (generateVolumeMountEntries ''/home/u'' (\<lambda>p. Some True) [''/a/data'', ''/b/data'']))"
  by code_simp

text \<open>
  Claim C1, amended. The container-side paths of the generated mounts are pairwise
  distinct exactly when the source paths that the loop mounts (directories, not the
  reserved \<open>.openclaw\<close>) have pairwise distinct base names. The fixed mounts never collide
  with each other or with a mount under the workspace.
\<close>

theorem generateVolumeMounts_distinct_iff:
  "distinct (map containerPath (generateVolumeMountEntries home stat paths))
   \<longleftrightarrow> distinct (map basename (mountedSources stat paths))"
proof -
  have disj: "set (map containerPath (baselineMounts home))
       \<inter> set (map containerPath (userMounts stat paths)) = {}"
    using baseline_not_workspace_child [of _ home]
    unfolding containerPath_userMounts by fastforce
  have "distinct (map containerPath (generateVolumeMountEntries home stat paths))
     \<longleftrightarrow> distinct (map containerPath (userMounts stat paths))"
    unfolding generateVolumeMountEntries_def map_append distinct_append
    using disj baseline_distinct [of home] by blast
  then show ?thesis
    by (simp only: containerPath_userMounts distinct_workspace_children)
qed

theorem generateVolumeMounts_distinct_iff_witness:
  "distinct (map basename
      (mountedSources (\<lambda>p. Some True) [''/home/u/Documents'', ''/home/u/project'']))
   \<and> distinct (map containerPath
      (generateVolumeMountEntries ''/home/u'' (\<lambda>p. Some True)
         [''/home/u/Documents'', ''/home/u/project'']))"
proof -
  have d: "distinct (map basename
      (mountedSources (\<lambda>p. Some True) [''/home/u/Documents'', ''/home/u/project'']))"
    by code_simp
  from generateVolumeMounts_distinct_iff [of "''/home/u''" "\<lambda>p. Some True"
      "[''/home/u/Documents'', ''/home/u/project'']"] d
  show ?thesis by blast
qed

subsection \<open>The end-to-end scenario\<close>

text \<open>
  Claim C5, as stated, fails in its last part: the text the compiler renders for the
  denied path \<open>/home/u/.ssh\<close> has no category header. The comment line above the entry is
  the third line of the fixed preamble, not the header of the \<open>keys\<close> category, and no
  line of the text mentions keys.
\<close>

theorem generateClawignore_no_keys_header:
  "headerAbove None ''/home/u/.ssh'' (split newline (generateClawignore [''/home/u/.ssh'']))
     = Some ''# These paths are NOT mounted into the Docker container''
   \<and> map_of CATEGORY_COMMENTS ''keys'' = Some ''# Private keys & certificates''
   \<and> filter (\<lambda>l. includesStr (toLowerCase l) ''key'')
        (split newline (generateClawignore [''/home/u/.ssh''])) = []"
  by code_simp

text \<open>
  Claim C5, amended. For \<open>allPaths = [/home/u/Documents, /home/u/.ssh, /home/u/project]\<close>
  and the denied path \<open>/home/u/.ssh\<close>, \<open>pathsToMount\<close> is
  \<open>[/home/u/Documents, /home/u/project]\<close>, and the rendered ignore list is the
  three-line comment preamble, a blank line and the one line \<open>/home/u/.ssh\<close>: that line is
  the only one the reader keeps.
\<close>

theorem end_to_end_scenario:
  "pathsToMount [''/home/u/Documents'', ''/home/u/.ssh'', ''/home/u/project''] [''/home/u/.ssh'']
     = [''/home/u/Documents'', ''/home/u/project'']
   \<and> split newline (generateClawignore [''/home/u/.ssh''])
     = [''# Clawignore - Files hidden from OpenClaw'',
        ''# Generated by clawignore'',
        ''# These paths are NOT mounted into the Docker container'',
        '''', ''/home/u/.ssh'', '''']
   \<and> readClawignore (generateClawignore [''/home/u/.ssh'']) = [''/home/u/.ssh'']"
  by code_simp

subsection \<open>Writer and reader of the ignore list\<close>

lemma split_append_sep:
  "c \<notin> set x \<Longrightarrow> split c (x @ c # r) = x # split c r"
  by (induction x) (auto split: list.splits)

lemma split_join_sep:
  "\<forall>x \<in> set (y # ys). c \<notin> set x \<Longrightarrow>
   split c (join [c] (y # ys) @ [c]) = (y # ys) @ [[]]"
proof (induction ys arbitrary: y)
  case Nil
  then show ?case using split_append_sep [of c y "[]"] by simp
next
  case (Cons z zs)
  then show ?case using split_append_sep [of c y "join [c] (z # zs) @ [c]"] by simp
qed

lemma trim_header:
  "map trim [''# Clawignore - Files hidden from OpenClaw'',
         ''# Generated by clawignore'',
         ''# These paths are NOT mounted into the Docker container'',
         []] = [''# Clawignore - Files hidden from OpenClaw'',
         ''# Generated by clawignore'',
         ''# These paths are NOT mounted into the Docker container'',
         []]"
  by (simp add: trim_def isWhiteSpace_def)

text \<open>
  Claim C10, as stated, fails: an entry with a leading space, or a leading no-break
  space, is non-empty after trimming and does not start with \<open>#\<close>, and the reader
  returns it trimmed.
\<close>

theorem clawignore_roundtrip_leading_space:
  "readClawignore (generateClawignore ['' a'']) = [''a'']
   \<and> readClawignore (generateClawignore ['' a'']) \<noteq> ['' a'']
   \<and> readClawignore (generateClawignore [[CHR 0xA0, CHR ''/'', CHR ''x'']]) = [''/x'']"
  by code_simp

text \<open>
  Claim C10, amended. For every list of ignored paths whose entries are non-empty, have
  no leading or trailing white space (they are what \<open>trim\<close> makes of them), do not
  start with \<open>#\<close> and contain no line feed, reading the text the writer produces gives
  back exactly that list, in order.
\<close>

theorem clawignore_roundtrip:
  assumes "\<forall>p \<in> set paths.
             p \<noteq> [] \<and> trim p = p \<and> \<not> startsWith p ''#'' \<and> newline \<notin> set p"
  shows "readClawignore (generateClawignore paths) = paths"
proof -
  let ?H = "[''# Clawignore - Files hidden from OpenClaw'',
         ''# Generated by clawignore'',
         ''# These paths are NOT mounted into the Docker container'',
         []]"
  have nl: "\<forall>x \<in> set (?H @ paths). newline \<notin> set x"
    using assms by auto
  have sp: "split newline (generateClawignore paths) = ?H @ paths @ [[]]"
    unfolding generateClawignore_def append_Cons append_Nil
    using nl by (subst split_join_sep) simp_all
  have tr: "map trim paths = paths"
    using assms by (simp add: map_idI)
  have keep: "filter (\<lambda>line. line \<noteq> [] \<and> \<not> startsWith line ''#'') paths = paths"
    using assms by (simp add: filter_id_conv)
  have trE: "trim [] = []" by (simp add: trim_def)
  show ?thesis
    unfolding readClawignore_def sp map_append trim_header tr filter_append keep
    by (simp add: startsWith_def trE)
qed

theorem clawignore_roundtrip_witness:
  "list_all (\<lambda>p. p \<noteq> [] \<and> trim p = p \<and> \<not> startsWith p ''#'' \<and> newline \<notin> set p)
      [''/home/u/.ssh'', ''/home/u/My Documents'']
   \<and> readClawignore (generateClawignore [''/home/u/.ssh'', ''/home/u/My Documents''])
     = [''/home/u/.ssh'', ''/home/u/My Documents'']"
proof -
  have h: "\<forall>p \<in> set [''/home/u/.ssh'', ''/home/u/My Documents''].
       p \<noteq> [] \<and> trim p = p \<and> \<not> startsWith p ''#'' \<and> newline \<notin> set p"
    by (simp add: trim_def isWhiteSpace_def startsWith_def)
  from clawignore_roundtrip [OF h] h show ?thesis
    unfolding list_all_iff by blast
qed

subsection \<open>The sensitivity classifier\<close>

text \<open>
  Claim C7. The classifier is a function of its arguments alone, and of the name alone:
  the path does not change the answer. The name \<open>.env\<close> is sensitive, and its reason is
  a sentence about environment variables; \<open>id_rsa.pub\<close> is sensitive under no rule; and
  \<open>notes-on-password-policy.md\<close> is sensitive because the keyword \<open>password\<close> occurs in
  it, none of the earlier rules (exact name, \<open>.env\<close> prefix, extension) matching.
\<close>

theorem classifier_examples:
  "isSensitivePath n p = isSensitivePath n p'
   \<and> isSensitivePath ''.env'' p
   \<and> getSensitiveReason ''.env'' = ''Environment variables may contain secrets''
   \<and> includesStr (toLowerCase (getSensitiveReason ''.env'')) ''environment variables''
   \<and> \<not> isSensitivePath ''id_rsa.pub'' p
   \<and> isSensitivePath ''notes-on-password-policy.md'' p
   \<and> toLowerCase ''notes-on-password-policy.md'' \<notin> set SENSITIVE_PATTERNS
   \<and> \<not> startsWith (toLowerCase ''notes-on-password-policy.md'') ''.env.''
   \<and> \<not> list_ex (endsWith (toLowerCase ''notes-on-password-policy.md'')) SENSITIVE_EXTENSIONS
   \<and> ''password'' \<in> set SENSITIVE_KEYWORDS
   \<and> includesStr (toLowerCase ''notes-on-password-policy.md'') ''password''
   \<and> getSensitiveReason ''notes-on-password-policy.md'' = ''Contains \"password\" in name''"
proof -
  have pure: "isSensitivePath n p = isSensitivePath n p'"
    by (simp add: isSensitivePath_def Let_def)
  have "isSensitivePath ''.env'' []" by code_simp
  then have env: "isSensitivePath ''.env'' p"
    by (simp add: isSensitivePath_def Let_def)
  have "\<not> isSensitivePath ''id_rsa.pub'' []" by code_simp
  then have pub: "\<not> isSensitivePath ''id_rsa.pub'' p"
    by (simp add: isSensitivePath_def Let_def)
  have "isSensitivePath ''notes-on-password-policy.md'' []" by code_simp
  then have md: "isSensitivePath ''notes-on-password-policy.md'' p"
    by (simp add: isSensitivePath_def Let_def)
  have reasons: "getSensitiveReason ''.env'' = ''Environment variables may contain secrets''
      \<and> includesStr (toLowerCase (getSensitiveReason ''.env'')) ''environment variables''
      \<and> getSensitiveReason ''notes-on-password-policy.md'' = ''Contains \"password\" in name''"
    by code_simp
  have rules: "toLowerCase ''notes-on-password-policy.md'' \<notin> set SENSITIVE_PATTERNS
      \<and> \<not> startsWith (toLowerCase ''notes-on-password-policy.md'') ''.env.''
      \<and> \<not> list_ex (endsWith (toLowerCase ''notes-on-password-policy.md'')) SENSITIVE_EXTENSIONS
      \<and> ''password'' \<in> set SENSITIVE_KEYWORDS
      \<and> includesStr (toLowerCase ''notes-on-password-policy.md'') ''password''"
    by code_simp
  from pure env pub md reasons rules show ?thesis by blast
qed

subsection \<open>Order of siblings in the tree\<close>

lemma set_insertBy: "set (insertBy cmp x xs) = insert x (set xs)"
  by (induction xs) auto

lemma sorted_insertBy:
  assumes "consistentComparator cmp" "sorted_wrt (\<lambda>a b. cmp a b \<le> 0) xs"
  shows "sorted_wrt (\<lambda>a b. cmp a b \<le> 0) (insertBy cmp x xs)"
  using assms(2)
proof (induction xs)
  case Nil
  then show ?case by simp
next
  case (Cons y ys)
  show ?case
  proof (cases "cmp x y \<le> 0")
    case True
    have "\<forall>z \<in> set ys. cmp x z \<le> 0"
    proof
      fix z assume "z \<in> set ys"
      with Cons.prems have "cmp y z \<le> 0" by simp
      with True assms(1) show "cmp x z \<le> 0" unfolding consistentComparator_def by blast
    qed
    with True Cons.prems show ?thesis by simp
  next
    case False
    with assms(1) have "cmp y x \<le> 0" unfolding consistentComparator_def by blast
    with False Cons show ?thesis by (auto simp: set_insertBy)
  qed
qed

lemma sorted_sortBy:
  "consistentComparator cmp \<Longrightarrow> sorted_wrt (\<lambda>a b. cmp a b \<le> 0) (sortBy cmp xs)"
  unfolding sortBy_def by (induction xs) (auto intro: sorted_insertBy)

lemma consistent_compareEntries:
  assumes "consistentComparator lc"
  shows "consistentComparator (compareEntries lc)"
proof -
  from assms have tot: "\<And>a b. lc a b \<le> 0 \<or> lc b a \<le> 0"
    and tr: "\<And>a b c. lc a b \<le> 0 \<Longrightarrow> lc b c \<le> 0 \<Longrightarrow> lc a c \<le> 0"
    unfolding consistentComparator_def by blast+
  have le: "compareEntries lc a b \<le> 0 \<longleftrightarrow>
      (d_isDirectory a \<and> \<not> d_isDirectory b)
      \<or> (d_isDirectory a = d_isDirectory b \<and> lc (d_name a) (d_name b) \<le> 0)" for a b
    by (auto simp: compareEntries_def)
  show ?thesis
    unfolding consistentComparator_def le
  proof (intro conjI allI impI)
    fix a b :: Dirent
    show "(d_isDirectory a \<and> \<not> d_isDirectory b
           \<or> d_isDirectory a = d_isDirectory b \<and> lc (d_name a) (d_name b) \<le> 0)
        \<or> (d_isDirectory b \<and> \<not> d_isDirectory a
           \<or> d_isDirectory b = d_isDirectory a \<and> lc (d_name b) (d_name a) \<le> 0)"
      using tot [of "d_name a" "d_name b"] by blast
  next
    fix a b c :: Dirent
    assume "(d_isDirectory a \<and> \<not> d_isDirectory b
           \<or> d_isDirectory a = d_isDirectory b \<and> lc (d_name a) (d_name b) \<le> 0)
        \<and> (d_isDirectory b \<and> \<not> d_isDirectory c
           \<or> d_isDirectory b = d_isDirectory c \<and> lc (d_name b) (d_name c) \<le> 0)"
    then show "d_isDirectory a \<and> \<not> d_isDirectory c
           \<or> d_isDirectory a = d_isDirectory c \<and> lc (d_name a) (d_name c) \<le> 0"
      using tr [of "d_name a" "d_name b" "d_name c"] by blast
  qed
qed

lemma sorted_concat_map:
  assumes "sorted_wrt P xs"
      and "\<forall>x \<in> set xs. g x = [] \<or> g x = [f x]"
      and "\<forall>x y. P x y \<longrightarrow> Q (f x) (f y)"
  shows "sorted_wrt Q (concat (map g xs))"
  using assms(1,2)
proof (induction xs)
  case Nil
  then show ?case by simp
next
  case (Cons x xs)
  have sub: "set (concat (map g xs)) \<subseteq> f ` set xs"
    using Cons.prems(2) by fastforce
  from Cons have IH: "sorted_wrt Q (concat (map g xs))" by simp
  from Cons.prems(2) consider "g x = []" | "g x = [f x]" by auto
  then show ?case
  proof cases
    case 1
    with IH show ?thesis by simp
  next
    case 2
    have "\<forall>b \<in> set (concat (map g xs)). Q (f x) b"
      using sub Cons.prems(1) assms(3) by auto
    with 2 IH show ?thesis by simp
  qed
qed

lemma asciiLocaleCompare_le:
  "asciiLocaleCompare a b \<le> 0 \<longleftrightarrow> collationKey a \<le> collationKey b"
  by (auto simp: asciiLocaleCompare_def)

lemma consistent_asciiLocaleCompare: "consistentComparator asciiLocaleCompare"
  unfolding consistentComparator_def asciiLocaleCompare_le by auto

lemma buildFileTree_unfold:
  assumes "\<not> maxDepth \<le> depth" "readdir pf dir = Some entries"
  shows "buildFileTree pf dir rootPath depth maxDepth
    = concat (map
        (\<lambda>entry. if skipEntry depth entry then []
           else [FileNode (d_name entry) (pathJoin pf dir (d_name entry))
                  (if pathRelative pf rootPath (pathJoin pf dir (d_name entry)) = []
                   then d_name entry
                   else pathRelative pf rootPath (pathJoin pf dir (d_name entry)))
                  (d_isDirectory entry)
                  (if d_isDirectory entry
                   then Some (buildFileTree pf (pathJoin pf dir (d_name entry)) rootPath
                                (depth + 1) maxDepth)
                   else None)
                  False False depth
                  (isSensitivePath (d_name entry) (pathJoin pf dir (d_name entry)))])
        (sortBy (compareEntries (localeCompare pf)) entries))"
  using assms by (subst buildFileTree.simps) (simp add: Let_def cong: if_cong)

lemma buildFileTree_level_sorted:
  assumes "consistentComparator (localeCompare pf)"
  shows "sorted_wrt (siblingOrder (localeCompare pf))
           (buildFileTree pf dir rootPath depth maxDepth)"
proof (cases "depth \<ge> maxDepth")
  case True
  then show ?thesis by (subst buildFileTree.simps) simp
next
  case False
  show ?thesis
  proof (cases "readdir pf dir")
    case None
    with False show ?thesis by (subst buildFileTree.simps) simp
  next
    case (Some entries)
    let ?node = "\<lambda>entry.
        FileNode (d_name entry) (pathJoin pf dir (d_name entry))
          (if pathRelative pf rootPath (pathJoin pf dir (d_name entry)) = [] then d_name entry
           else pathRelative pf rootPath (pathJoin pf dir (d_name entry)))
          (d_isDirectory entry)
          (if d_isDirectory entry
           then Some (buildFileTree pf (pathJoin pf dir (d_name entry)) rootPath
                        (depth + 1) maxDepth)
           else None)
          False False depth (isSensitivePath (d_name entry) (pathJoin pf dir (d_name entry)))"
    let ?le = "\<lambda>a b. compareEntries (localeCompare pf) a b \<le> 0"
    have srt: "sorted_wrt ?le (sortBy (compareEntries (localeCompare pf)) entries)"
      using assms by (intro sorted_sortBy consistent_compareEntries)
    have mono: "\<forall>x y. ?le x y \<longrightarrow> siblingOrder (localeCompare pf) (?node x) (?node y)"
      by (auto simp: compareEntries_def siblingOrder_def split: if_splits)
    show ?thesis
      unfolding buildFileTree_unfold [OF False Some]
      by (rule sorted_concat_map [where f = ?node, OF srt _ mono]) simp
  qed
qed

lemma buildFileTree_children_sorted:
  "consistentComparator (localeCompare pf) \<Longrightarrow>
   list_all (childrenSorted (localeCompare pf)) (buildFileTree pf dir rootPath depth maxDepth)"
proof (induction pf dir rootPath depth maxDepth rule: buildFileTree.induct)
  case (1 pf dir rootPath depth maxDepth)
  show ?case
  proof (cases "depth \<ge> maxDepth")
    case True
    then show ?thesis by (subst buildFileTree.simps) simp
  next
    case False
    show ?thesis
    proof (cases "readdir pf dir")
      case None
      with False show ?thesis by (subst buildFileTree.simps) simp
    next
      case (Some entries)
      have "list_all (childrenSorted (localeCompare pf))
              (buildFileTree pf (pathJoin pf dir (d_name entry)) rootPath (depth + 1) maxDepth)"
        if "entry \<in> set (sortBy (compareEntries (localeCompare pf)) entries)"
          "\<not> skipEntry depth entry" "d_isDirectory entry" for entry
        using "1.IH" [OF False Some that(1,2) refl refl refl that(3) "1.prems"] .
      then show ?thesis
        unfolding buildFileTree_unfold [OF False Some]
        using buildFileTree_level_sorted [OF "1.prems"]
        by (auto simp: list_all_iff)
    qed
  qed
qed

lemma demoPlatform_tree:
  "buildFileTree demoPlatform ''/home/u'' ''/home/u'' 0 3 =
     [FileNode ''Documents'' ''/home/u/Documents'' ''Documents'' True (Some [])
        False False 0 False,
      FileNode ''src'' ''/home/u/src'' ''src'' True
        (Some
          [FileNode ''lib'' ''/home/u/src/lib'' ''src/lib'' True (Some []) False False 1 False,
           FileNode ''.env'' ''/home/u/src/.env'' ''src/.env'' False None False False 1 True,
           FileNode ''main.ts'' ''/home/u/src/main.ts'' ''src/main.ts'' False None
             False False 1 False])
        False False 0 False,
      FileNode ''a.txt'' ''/home/u/a.txt'' ''a.txt'' False None False False 0 False,
      FileNode ''alpha'' ''/home/u/alpha'' ''alpha'' False None False False 0 False,
      FileNode ''notes.txt'' ''/home/u/notes.txt'' ''notes.txt'' False None False False 0 False,
      FileNode ''Zeta'' ''/home/u/Zeta'' ''Zeta'' False None False False 0 False]"
  by code_simp

text \<open>
  Claim C8, as stated, fails: the names are ordered by \<open>localeCompare\<close>, which is not the
  lexicographic order. On the example platform the files come out as \<open>a.txt\<close>, \<open>alpha\<close>,
  \<open>notes.txt\<close>, \<open>Zeta\<close>, while code unit by code unit \<open>Zeta\<close> stands before all of them.
\<close>

theorem buildFileTree_not_lexicographic:
  "map fn_name (buildFileTree demoPlatform ''/home/u'' ''/home/u'' 0 3)
     = [''Documents'', ''src'', ''a.txt'', ''alpha'', ''notes.txt'', ''Zeta'']
   \<and> map fn_isDirectory (buildFileTree demoPlatform ''/home/u'' ''/home/u'' 0 3)
     = [True, True, False, False, False, False]
   \<and> codeUnitCompare ''notes.txt'' ''Zeta'' = 1
   \<and> \<not> sorted_wrt (siblingOrder codeUnitCompare)
         (buildFileTree demoPlatform ''/home/u'' ''/home/u'' 0 3)"
  unfolding demoPlatform_tree by code_simp

text \<open>
  Claim C8, amended. Whatever directory the builder is called on, at whatever depth, the
  nodes it returns are ordered as its comparison function says: no file stands before a
  directory, and of two directories, or of two files, the earlier one's name is not
  greater than the later one's in the order of the platform's \<open>localeCompare\<close>. The same
  holds for the children of every directory node of the returned tree, at every level.
  The statement needs \<open>localeCompare\<close> to be consistent, as every collation is.
\<close>

theorem buildFileTree_sorted:
  assumes "consistentComparator (localeCompare pf)"
  shows "sorted_wrt (siblingOrder (localeCompare pf))
           (buildFileTree pf dir rootPath depth maxDepth)
       \<and> list_all (childrenSorted (localeCompare pf))
           (buildFileTree pf dir rootPath depth maxDepth)"
  using assms buildFileTree_level_sorted buildFileTree_children_sorted by blast

theorem buildFileTree_sorted_witness:
  "consistentComparator (localeCompare demoPlatform)
   \<and> map fn_name (buildFileTree demoPlatform ''/home/u'' ''/home/u'' 0 3)
       = [''Documents'', ''src'', ''a.txt'', ''alpha'', ''notes.txt'', ''Zeta'']
   \<and> map (map_option (map fn_name) \<circ> fn_children)
        (buildFileTree demoPlatform ''/home/u'' ''/home/u'' 0 3)
       = [Some [], Some [''lib'', ''.env'', ''main.ts''], None, None, None, None]
   \<and> sorted_wrt (siblingOrder (localeCompare demoPlatform))
        (buildFileTree demoPlatform ''/home/u'' ''/home/u'' 0 3)
   \<and> list_all (childrenSorted (localeCompare demoPlatform))
        (buildFileTree demoPlatform ''/home/u'' ''/home/u'' 0 3)"
proof -
  have c: "consistentComparator (localeCompare demoPlatform)"
    by (simp add: demoPlatform_def consistent_asciiLocaleCompare)
  have n: "map fn_name (buildFileTree demoPlatform ''/home/u'' ''/home/u'' 0 3)
       = [''Documents'', ''src'', ''a.txt'', ''alpha'', ''notes.txt'', ''Zeta'']"
    unfolding demoPlatform_tree by simp
  have k: "map (map_option (map fn_name) \<circ> fn_children)
        (buildFileTree demoPlatform ''/home/u'' ''/home/u'' 0 3)
       = [Some [], Some [''lib'', ''.env'', ''main.ts''], None, None, None, None]"
    unfolding demoPlatform_tree by simp
  from buildFileTree_sorted [OF c, of "''/home/u''" "''/home/u''" 0 3] c n k
  show ?thesis by blast
qed

subsection \<open>Paths and their lexical ancestors\<close>

lemma startsWith_iff: "startsWith s p \<longleftrightarrow> (\<exists>r. s = p @ r)"
proof
  assume "startsWith s p"
  then have "s = p @ drop (length p) s"
    unfolding startsWith_def by (metis append_take_drop_id)
  then show "\<exists>r. s = p @ r" ..
next
  assume "\<exists>r. s = p @ r"
  then show "startsWith s p" by (auto simp: startsWith_def)
qed

lemma startsWith_length: "startsWith s p \<Longrightarrow> length p \<le> length s"
  by (auto simp: startsWith_iff)

lemma descendant_longer: "startsWith y (p @ ''/'') \<Longrightarrow> length p < length y"
  using startsWith_length [of y "p @ ''/''"] by simp

lemma not_own_descendant: "\<not> startsWith p (p @ ''/'')"
  using descendant_longer [of p p] by auto

lemma split_nonempty: "split c s \<noteq> []"
  by (induction s) (auto split: list.splits)

lemma split_append: "split c (a @ c # r) = split c a @ split c r"
proof (induction a)
  case Nil
  then show ?case by simp
next
  case (Cons x a)
  then show ?case using split_nonempty [of c a]
    by (cases "split c a") auto
qed

lemma join_split: "join [c] (split c a) = a"
proof (induction a)
  case Nil
  then show ?case by simp
next
  case (Cons x a)
  show ?case
  proof (cases "split c a")
    case Nil
    then show ?thesis using split_nonempty by blast
  next
    case (Cons w ws)
    with Cons.IH show ?thesis by (cases ws) auto
  qed
qed

lemma join_append:
  "xs \<noteq> [] \<Longrightarrow> ys \<noteq> [] \<Longrightarrow> join [c] (xs @ ys) = join [c] xs @ c # join [c] ys"
proof (induction xs)
  case Nil
  then show ?case by simp
next
  case (Cons x xs)
  show ?case
  proof (cases xs)
    case Nil
    with Cons.prems show ?thesis by (cases ys) auto
  next
    case (Cons z zs)
    with Cons.IH Cons.prems show ?thesis by simp
  qed
qed

lemma join_take_prefix:
  assumes "1 \<le> i" "i < length (split c p)"
  shows "p = join [c] (take i (split c p)) @ c # join [c] (drop i (split c p))"
proof -
  have "take i (split c p) \<noteq> []" "drop i (split c p) \<noteq> []"
    using assms split_nonempty [of c p] by auto
  then have "join [c] (take i (split c p) @ drop i (split c p))
      = join [c] (take i (split c p)) @ c # join [c] (drop i (split c p))"
    by (rule join_append)
  then show ?thesis by (simp add: join_split)
qed

lemma ancestor_is_join:
  assumes "startsWith p (a @ [c])"
  shows "\<exists>i. 1 \<le> i \<and> i < length (split c p) \<and> join [c] (take i (split c p)) = a"
proof -
  from assms obtain r where p: "p = a @ c # r" by (auto simp: startsWith_iff)
  have sp: "split c p = split c a @ split c r" unfolding p by (rule split_append)
  let ?i = "length (split c a)"
  have "1 \<le> ?i" using split_nonempty [of c a] by (cases "split c a") auto
  moreover have "?i < length (split c p)"
    unfolding sp using split_nonempty [of c r] by (cases "split c r") auto
  moreover have "join [c] (take ?i (split c p)) = a"
    unfolding sp by (simp add: join_split)
  ultimately show ?thesis by blast
qed

text \<open>
  The parent paths the \<open>return\<close> branch tries are exactly the lexical ancestors of the
  path: the strings \<open>a\<close> with \<open>p.startsWith(a + "/")\<close>.
\<close>

lemma noParentSelected_iff:
  "noParentSelected sel p \<longleftrightarrow> (\<forall>a \<in> set sel. \<not> startsWith p (a @ ''/''))"
proof
  assume np: "noParentSelected sel p"
  show "\<forall>a \<in> set sel. \<not> startsWith p (a @ ''/'')"
  proof (intro ballI notI)
    fix a assume a: "a \<in> set sel" and sw: "startsWith p (a @ ''/'')"
    from ancestor_is_join [OF sw] obtain i where
      "1 \<le> i" "i < length (split (CHR ''/'') p)" "join ''/'' (take i (split (CHR ''/'') p)) = a"
      by blast
    with a np show False
      unfolding noParentSelected_def Let_def list_ex_iff by auto
  qed
next
  assume anc: "\<forall>a \<in> set sel. \<not> startsWith p (a @ ''/'')"
  show "noParentSelected sel p"
    unfolding noParentSelected_def Let_def list_ex_iff
  proof (intro notI, elim bexE)
    fix i assume i: "i \<in> set [1 ..< length (split (CHR ''/'') p)]"
      and m: "join ''/'' (take i (split (CHR ''/'') p)) \<in> set sel"
    from i have "1 \<le> i" "i < length (split (CHR ''/'') p)" by auto
    from join_take_prefix [OF this]
    have "startsWith p (join ''/'' (take i (split (CHR ''/'') p)) @ ''/'')"
      by (metis append.assoc append_Cons append_Nil startsWith_iff)
    with anc m show False by blast
  qed
qed

subsection \<open>The selection after a toggle\<close>

lemma descendantPaths_Nil [simp]: "descendantPaths node [] = []"
  by (simp add: descendantPaths_def)

lemma descendantPaths_Cons:
  "descendantPaths node (n # nodes) =
     (if startsWith (fn_path n) (fn_path node @ ''/'') then [fn_path n] else [])
     @ descendantPaths node nodes"
  by (simp add: descendantPaths_def)

lemma descendantPaths_startsWith:
  "y \<in> set (descendantPaths node nodes) \<Longrightarrow> startsWith y (fn_path node @ ''/'')"
  by (auto simp: descendantPaths_def)

lemma deselectChildren_filter:
  "deselectChildren node nodes sel = filter (\<lambda>y. y \<notin> set (descendantPaths node nodes)) sel"
  unfolding deselectChildren_def
proof (induction nodes arbitrary: sel)
  case Nil
  then show ?case by simp
next
  case (Cons n nodes)
  show ?case
    by (auto simp: Cons.IH setDelete_def descendantPaths_Cons intro!: filter_cong)
qed

lemma selectChildren_append:
  "\<exists>ys. selectChildren node nodes sel = sel @ ys
        \<and> set ys \<subseteq> set (descendantPaths node nodes)"
  unfolding selectChildren_def
proof (induction nodes arbitrary: sel)
  case Nil
  then show ?case by simp
next
  case (Cons n nodes)
  show ?case
  proof (cases "startsWith (fn_path n) (fn_path node @ ''/'') \<and> fn_path n \<notin> set sel")
    case True
    from Cons.IH [of "sel @ [fn_path n]"] obtain ys where
      "fold (\<lambda>child s. if startsWith (fn_path child) (fn_path node @ ''/'')
                      then setAdd (fn_path child) s else s) nodes (sel @ [fn_path n])
         = (sel @ [fn_path n]) @ ys"
      "set ys \<subseteq> set (descendantPaths node nodes)"
      by blast
    with True show ?thesis
      by (intro exI [of _ "fn_path n # ys"]) (auto simp: setAdd_def descendantPaths_Cons)
  next
    case False
    from Cons.IH [of sel] obtain ys where
      "fold (\<lambda>child s. if startsWith (fn_path child) (fn_path node @ ''/'')
                      then setAdd (fn_path child) s else s) nodes sel = sel @ ys"
      "set ys \<subseteq> set (descendantPaths node nodes)"
      by blast
    with False show ?thesis
      by (intro exI [of _ ys]) (auto simp: setAdd_def descendantPaths_Cons)
  qed
qed

lemma selectChildren_set:
  "set (selectChildren node nodes sel) = set sel \<union> set (descendantPaths node nodes)"
  unfolding selectChildren_def
  by (induction nodes arbitrary: sel) (auto simp: setAdd_def descendantPaths_Cons)

lemma toggleSelection_set:
  "set (toggleSelection node nodes sel) =
     (if fn_path node \<in> set sel
      then set sel - {fn_path node}
             - (if fn_isDirectory node then set (descendantPaths node nodes) else {})
      else insert (fn_path node) (set sel)
             \<union> (if fn_isDirectory node then set (descendantPaths node nodes) else {}))"
  by (auto simp: toggleSelection_def Let_def deselectChildren_filter selectChildren_set
        setAdd_def setDelete_def)

lemma toggleSelection_twice:
  assumes "fn_path node \<notin> set sel"
      and "\<forall>s \<in> set sel. \<not> startsWith s (fn_path node @ ''/'')"
  shows "toggleSelection node nodes (toggleSelection node nodes sel) = sel"
proof (cases "fn_isDirectory node")
  case False
  with assms(1) show ?thesis
    by (auto simp: toggleSelection_def setAdd_def setDelete_def Let_def filter_id_conv)
next
  case True
  let ?P = "fn_path node"
  let ?D = "set (descendantPaths node nodes)"
  from selectChildren_append [of node nodes "sel @ [?P]"] obtain ys where
    ys: "selectChildren node nodes (sel @ [?P]) = (sel @ [?P]) @ ys" "set ys \<subseteq> ?D"
    by blast
  have first: "toggleSelection node nodes sel = sel @ ?P # ys"
    using assms(1) True ys(1) by (simp add: toggleSelection_def setAdd_def Let_def)
  have keep: "\<forall>y \<in> set sel. y \<noteq> ?P \<and> y \<notin> ?D"
    using assms descendantPaths_startsWith by blast
  have drop: "\<forall>y \<in> set ys. y \<in> ?D"
    using ys(2) by auto
  have "toggleSelection node nodes (sel @ ?P # ys)
      = filter (\<lambda>y. y \<notin> ?D) (filter (\<lambda>y. y \<noteq> ?P) (sel @ ?P # ys))"
    using True
    by (simp add: toggleSelection_def Let_def deselectChildren_filter setDelete_def)
  also have "\<dots> = sel"
    using keep drop by (simp add: filter_id_conv filter_empty_conv)
  finally show ?thesis unfolding first .
qed

subsection \<open>Key presses\<close>

lemma handleKeypress_space:
  "handleKeypress (keyNamed ''space'') st =
     (case nodeAt (flatList st) (cursor st) of
        None \<Rightarrow> Inl TypeError
      | Some node \<Rightarrow>
          Inr (Pending (st\<lparr>selected := toggleSelection node (flatList st) (selected st)\<rparr>)))"
  by (simp add: handleKeypress_def keyNamed_def)

lemma handleKeypress_down:
  "handleKeypress (keyNamed ''down'') st =
     Inr (Pending (st\<lparr>cursor := min (int (length (flatList st)) - 1) (cursor st + 1)\<rparr>))"
  by (simp add: handleKeypress_def keyNamed_def)

lemma handleKeypress_return:
  "handleKeypress (keyNamed ''return'') st = Inr (Resolved (confirmResult st))"
  by (simp add: handleKeypress_def keyNamed_def)

lemma ignoredPaths_confirmResult:
  "p \<in> set (r_ignoredPaths (confirmResult st)) \<longleftrightarrow>
     p \<in> set (selected st) \<and> (\<forall>a \<in> set (selected st). \<not> startsWith p (a @ ''/''))"
  by (simp add: confirmResult_def noParentSelected_iff)

lemma runKeys_down:
  "cursor st + int n < int (length (flatList st)) \<Longrightarrow>
   runKeys (replicate n (keyNamed ''down'') @ ks) st
     = runKeys ks (st\<lparr>cursor := cursor st + int n\<rparr>)"
proof (induction n arbitrary: st)
  case 0
  then show ?case by simp
next
  case (Suc n)
  let ?st = "st\<lparr>cursor := cursor st + 1\<rparr>"
  from Suc.prems have step: "handleKeypress (keyNamed ''down'') st = Inr (Pending ?st)"
    by (simp add: handleKeypress_down min_def)
  from Suc.prems have "cursor ?st + int n < int (length (flatList ?st))" by simp
  from Suc.IH [OF this]
  have "runKeys (replicate n (keyNamed ''down'') @ ks) ?st
      = runKeys ks (st\<lparr>cursor := cursor st + int (Suc n)\<rparr>)"
    by (simp add: algebra_simps)
  with step show ?case by simp
qed

subsection \<open>Confirming the selection\<close>

lemma descendant_trans:
  assumes "startsWith s (a @ ''/'')" "startsWith a (b @ ''/'')"
  shows "startsWith s (b @ ''/'')"
proof -
  from assms obtain r r' where "s = (a @ ''/'') @ r" "a = (b @ ''/'') @ r'"
    unfolding startsWith_iff by blast
  then have "s = (b @ ''/'') @ (r' @ ''/'' @ r)" by simp
  then show ?thesis unfolding startsWith_iff by blast
qed

lemma confirm_covers:
  "s \<in> set (selected st) \<Longrightarrow>
   \<exists>r \<in> set (r_ignoredPaths (confirmResult st)). s = r \<or> startsWith s (r @ ''/'')"
proof (induction "length s" arbitrary: s rule: less_induct)
  case less
  show ?case
  proof (cases "\<forall>a \<in> set (selected st). \<not> startsWith s (a @ ''/'')")
    case True
    with less.prems have "s \<in> set (r_ignoredPaths (confirmResult st))"
      by (simp add: ignoredPaths_confirmResult)
    then show ?thesis by blast
  next
    case False
    then obtain a where a: "a \<in> set (selected st)" "startsWith s (a @ ''/'')" by blast
    from descendant_longer [OF a(2)] have "length a < length s" .
    from less.hyps [OF this a(1)] obtain r where
      r: "r \<in> set (r_ignoredPaths (confirmResult st))" "a = r \<or> startsWith a (r @ ''/'')"
      by blast
    from r(2) a(2) have "startsWith s (r @ ''/'')"
      using descendant_trans by blast
    with r(1) show ?thesis by blast
  qed
qed

text \<open>
  Claim C6. The \<open>return\<close> key always resolves, and every path it reports as denied is
  selected, has no lexical ancestor in the selection, and therefore lies below no other
  reported path. Nothing is lost by the pruning: every selected path is reported or lies
  below a reported one.
\<close>

theorem confirm_minimal_cover:
  "handleKeypress (keyNamed ''return'') st = Inr (Resolved (confirmResult st))
   \<and> (\<forall>p \<in> set (r_ignoredPaths (confirmResult st)).
         p \<in> set (selected st)
         \<and> (\<forall>a \<in> set (selected st). \<not> startsWith p (a @ ''/''))
         \<and> (\<forall>q \<in> set (r_ignoredPaths (confirmResult st)). \<not> startsWith p (q @ ''/'')))
   \<and> (\<forall>s \<in> set (selected st).
         \<exists>r \<in> set (r_ignoredPaths (confirmResult st)). s = r \<or> startsWith s (r @ ''/''))"
  using confirm_covers [of _ st]
  by (auto simp: handleKeypress_return ignoredPaths_confirmResult)

theorem confirm_minimal_cover_witness:
  "r_ignoredPaths (confirmResult (initialState (demoTree True) [''/h/d'', ''/h/d/b'', ''/h/e'']))
     = [''/h/d'', ''/h/e'']
   \<and> ''/h/d'' \<in> set (selected (initialState (demoTree True) [''/h/d'', ''/h/d/b'', ''/h/e'']))
   \<and> \<not> startsWith ''/h/e'' (''/h/d'' @ ''/'')"
proof -
  let ?st = "initialState (demoTree True) [''/h/d'', ''/h/d/b'', ''/h/e'']"
  have r: "r_ignoredPaths (confirmResult ?st) = [''/h/d'', ''/h/e'']"
    by code_simp
  have e: "''/h/e'' \<in> set (r_ignoredPaths (confirmResult ?st))"
    unfolding r by simp
  have d: "''/h/d'' \<in> set (selected ?st)"
    by (simp add: initialState_def)
  from confirm_minimal_cover [of ?st] e d
  have "\<not> startsWith ''/h/e'' (''/h/d'' @ ''/'')" by blast
  with r d show ?thesis by blast
qed

subsection \<open>Selecting a directory, then deselecting a child\<close>

lemma select_then_deselect:
  assumes cur: "nodeAt (flatList st) (cursor st) = Some dir"
      and isdir: "fn_isDirectory dir"
      and unsel: "fn_path dir \<notin> set (selected st)"
      and noanc: "\<forall>a \<in> set (selected st). \<not> startsWith (fn_path dir) (a @ ''/'')"
      and k1: "handleKeypress (keyNamed ''space'') st = Inr (Pending st1)"
      and nav: "selected st2 = selected st1"
      and cur2: "nodeAt (flatList st2) (cursor st2) = Some child"
      and below: "startsWith (fn_path child) (fn_path dir @ ''/'')"
      and csel: "fn_path child \<in> set (selected st2)"
      and k2: "handleKeypress (keyNamed ''space'') st2 = Inr (Pending st3)"
      and k3: "handleKeypress (keyNamed ''return'') st3 = Inr (Resolved res)"
  shows "fn_path dir \<in> set (r_ignoredPaths res)
       \<and> fn_path child \<notin> set (r_ignoredPaths res)
       \<and> (\<forall>p. startsWith p (fn_path dir @ ''/'') \<longrightarrow> p \<notin> set (r_ignoredPaths res))"
proof -
  let ?P = "fn_path dir" and ?C = "fn_path child"
  from k1 cur have st1: "selected st1 = toggleSelection dir (flatList st) (selected st)"
    by (auto simp: handleKeypress_space)
  from k2 cur2 have st3: "selected st3 = toggleSelection child (flatList st2) (selected st2)"
    by (auto simp: handleKeypress_space)
  from k3 have res: "res = confirmResult st3"
    by (simp add: handleKeypress_return)
  have s1: "set (selected st1)
      = insert ?P (set (selected st)) \<union> set (descendantPaths dir (flatList st))"
    unfolding st1 using unsel isdir by (simp add: toggleSelection_set)
  have s3: "set (selected st3) \<subseteq> set (selected st1) - {?C}"
    unfolding st3 using csel nav by (auto simp: toggleSelection_set)
  have PC: "?P \<noteq> ?C" using descendant_longer [OF below] by auto
  have "?P \<notin> set (descendantPaths child (flatList st2))"
  proof
    assume "?P \<in> set (descendantPaths child (flatList st2))"
    then have "startsWith ?P (?C @ ''/'')" by (rule descendantPaths_startsWith)
    from descendant_longer [OF this] descendant_longer [OF below] show False by simp
  qed
  with PC s1 nav csel have P3: "?P \<in> set (selected st3)"
    unfolding st3 by (auto simp: toggleSelection_set)
  have noanc3: "\<forall>a \<in> set (selected st3). \<not> startsWith ?P (a @ ''/'')"
  proof (intro ballI notI)
    fix a assume a: "a \<in> set (selected st3)" and sw: "startsWith ?P (a @ ''/'')"
    from a s3 s1 consider "a = ?P" | "a \<in> set (selected st)"
      | "a \<in> set (descendantPaths dir (flatList st))" by blast
    then show False
    proof cases
      case 1
      with sw not_own_descendant show False by blast
    next
      case 2
      with noanc sw show False by blast
    next
      case 3
      then have "startsWith a (?P @ ''/'')" by (rule descendantPaths_startsWith)
      from descendant_longer [OF this] descendant_longer [OF sw] show False by simp
    qed
  qed
  have "?P \<in> set (r_ignoredPaths res)"
    unfolding res ignoredPaths_confirmResult using P3 noanc3 by blast
  moreover have "?C \<notin> set (r_ignoredPaths res)"
    unfolding res ignoredPaths_confirmResult using s3 by blast
  moreover have "\<forall>p. startsWith p (?P @ ''/'') \<longrightarrow> p \<notin> set (r_ignoredPaths res)"
    unfolding res ignoredPaths_confirmResult using P3 by blast
  ultimately show ?thesis by blast
qed

text \<open>
  Claim C2, as stated, fails. On the example tree the keys \<open>right\<close> (expand \<open>/h/d\<close>),
  \<open>space\<close> (select it), \<open>down\<close>, \<open>space\<close> (deselect \<open>/h/d/a\<close>) and \<open>return\<close> report the
  directory itself as denied and not its other child \<open>/h/d/b\<close>.
\<close>

theorem deselect_child_keeps_directory:
  "\<exists>res. runKeys (map keyNamed [''right'', ''space'', ''down'', ''space'', ''return''])
            (initialState (demoTree False) []) = Inr (Resolved res)
        \<and> r_ignoredPaths res = [''/h/d'']
        \<and> fn_path (demoDir True) \<in> set (r_ignoredPaths res)
        \<and> fn_path demoB \<notin> set (r_ignoredPaths res)"
  by (rule exI [of _ "\<lparr>r_ignoredPaths = [''/h/d''], r_allPaths = [''/h/d'', ''/h/e'']\<rparr>"])
     code_simp

text \<open>
  Claim C2, amended. Let the cursor stand on a directory that is not selected and has no
  selected lexical ancestor, and let a node lexically below it stand \<open>n\<close> rows further
  down. The keys \<open>space\<close>, \<open>n\<close> times \<open>down\<close>, \<open>space\<close> and \<open>return\<close> resolve the browser,
  and the denied paths reported contain the directory itself, not the deselected node,
  and no path below the directory: the directory stays selected when a child is
  deselected, and the reduction then drops everything under it.
\<close>

theorem select_directory_then_deselect_child:
  assumes cur: "nodeAt (flatList st) (cursor st) = Some dir"
      and isdir: "fn_isDirectory dir"
      and unsel: "fn_path dir \<notin> set (selected st)"
      and noanc: "\<forall>a \<in> set (selected st). \<not> startsWith (fn_path dir) (a @ ''/'')"
      and cur2: "nodeAt (flatList st) (cursor st + int n) = Some child"
      and below: "startsWith (fn_path child) (fn_path dir @ ''/'')"
  shows "\<exists>res. runKeys (keyNamed ''space'' # replicate n (keyNamed ''down'')
                         @ [keyNamed ''space'', keyNamed ''return'']) st = Inr (Resolved res)
           \<and> fn_path dir \<in> set (r_ignoredPaths res)
           \<and> fn_path child \<notin> set (r_ignoredPaths res)
           \<and> (\<forall>p. startsWith p (fn_path dir @ ''/'') \<longrightarrow> p \<notin> set (r_ignoredPaths res))"
proof -
  let ?st1 = "st\<lparr>selected := toggleSelection dir (flatList st) (selected st)\<rparr>"
  let ?st2 = "?st1\<lparr>cursor := cursor ?st1 + int n\<rparr>"
  let ?st3 = "?st2\<lparr>selected := toggleSelection child (flatList ?st2) (selected ?st2)\<rparr>"
  have k1: "handleKeypress (keyNamed ''space'') st = Inr (Pending ?st1)"
    using cur by (simp add: handleKeypress_space)
  have inrange: "cursor ?st1 + int n < int (length (flatList ?st1))"
    using cur2 by (auto simp: nodeAt_def split: if_splits)
  have c2: "nodeAt (flatList ?st2) (cursor ?st2) = Some child"
    using cur2 by simp
  have k2: "handleKeypress (keyNamed ''space'') ?st2 = Inr (Pending ?st3)"
    using c2 by (simp add: handleKeypress_space)
  have k3: "handleKeypress (keyNamed ''return'') ?st3 = Inr (Resolved (confirmResult ?st3))"
    by (rule handleKeypress_return)
  have "child \<in> set (flatList st)"
    using cur2 by (auto simp: nodeAt_def split: if_splits)
  with below have "fn_path child \<in> set (descendantPaths dir (flatList st))"
    by (auto simp: descendantPaths_def)
  then have csel: "fn_path child \<in> set (selected ?st2)"
    using unsel isdir by (simp add: toggleSelection_set)
  have run: "runKeys (keyNamed ''space'' # replicate n (keyNamed ''down'')
                         @ [keyNamed ''space'', keyNamed ''return'']) st
      = Inr (Resolved (confirmResult ?st3))"
    using k1 runKeys_down [OF inrange, of "[keyNamed ''space'', keyNamed ''return'']"] k2 k3
    by simp
  from select_then_deselect [OF cur isdir unsel noanc k1 _ c2 below csel k2 k3] run
  show ?thesis by simp
qed

theorem select_directory_then_deselect_child_witness:
  "\<exists>res. runKeys (map keyNamed [''space'', ''down'', ''space'', ''return''])
            (initialState (demoTree True) [''/h/e'']) = Inr (Resolved res)
        \<and> ''/h/d'' \<in> set (r_ignoredPaths res)
        \<and> ''/h/d/a'' \<notin> set (r_ignoredPaths res)
        \<and> ''/h/d/b'' \<notin> set (r_ignoredPaths res)"
proof -
  let ?st = "initialState (demoTree True) [''/h/e'']"
  have cur: "nodeAt (flatList ?st) (cursor ?st) = Some (demoDir True)" by code_simp
  have isdir: "fn_isDirectory (demoDir True)" by code_simp
  have unsel: "fn_path (demoDir True) \<notin> set (selected ?st)" by code_simp
  have noanc: "\<forall>a \<in> set (selected ?st). \<not> startsWith (fn_path (demoDir True)) (a @ ''/'')"
    by (simp add: initialState_def demoDir_def startsWith_def)
  have cur2: "nodeAt (flatList ?st) (cursor ?st + int (Suc 0)) = Some demoA" by code_simp
  have below: "startsWith (fn_path demoA) (fn_path (demoDir True) @ ''/'')" by code_simp
  have b: "startsWith ''/h/d/b'' (fn_path (demoDir True) @ ''/'')" by code_simp
  have p: "fn_path (demoDir True) = ''/h/d''" "fn_path demoA = ''/h/d/a''" by code_simp+
  have keys: "keyNamed ''space'' # replicate (Suc 0) (keyNamed ''down'')
        @ [keyNamed ''space'', keyNamed ''return'']
      = map keyNamed [''space'', ''down'', ''space'', ''return'']" by simp
  from select_directory_then_deselect_child [OF cur isdir unsel noanc cur2 below]
  obtain res where
    "runKeys (map keyNamed [''space'', ''down'', ''space'', ''return'']) ?st = Inr (Resolved res)"
    "''/h/d'' \<in> set (r_ignoredPaths res)" "''/h/d/a'' \<notin> set (r_ignoredPaths res)"
    "\<forall>p. startsWith p (''/h/d'' @ ''/'') \<longrightarrow> p \<notin> set (r_ignoredPaths res)"
    unfolding keys p by blast
  with b show ?thesis unfolding p by blast
qed

subsection \<open>Toggling twice\<close>

lemma toggleSelection_twice_selected:
  assumes "fn_path node \<in> set sel"
      and "set (descendantPaths node nodes) \<subseteq> set sel"
  shows "set (toggleSelection node nodes (toggleSelection node nodes sel)) = set sel"
proof -
  have "fn_path node \<notin> set (toggleSelection node nodes sel)"
    using assms(1) by (simp add: toggleSelection_set)
  then show ?thesis
    using assms by (subst toggleSelection_set) (auto simp: toggleSelection_set)
qed

text \<open>
  Claim C3, as stated, fails. On the example tree, with \<open>/h/d\<close> expanded and its child
  \<open>/h/d/a\<close> selected on its own, toggling the directory twice leaves nothing selected:
  the second toggle removes the child although the first did not add it.
\<close>

theorem toggle_twice_loses_child:
  "selectionAfter (map keyNamed [''right'', ''down'', ''space'', ''up''])
       (initialState (demoTree False) []) = Some [''/h/d/a'']
   \<and> selectionAfter (map keyNamed [''right'', ''down'', ''space'', ''up'', ''space'', ''space''])
       (initialState (demoTree False) []) = Some []"
  by code_simp

lemma toggleSelection_twice_file:
  assumes "\<not> fn_isDirectory node"
  shows "set (toggleSelection node nodes (toggleSelection node nodes sel)) = set sel"
    and "fn_path node \<notin> set sel \<Longrightarrow>
         toggleSelection node nodes (toggleSelection node nodes sel) = sel"
  using assms
  by (auto simp: toggleSelection_def setAdd_def setDelete_def Let_def filter_id_conv)

text \<open>
  Claim C3, amended. Let the cursor stand on a node. If the node and what lies below it
  are selected alike, that is, either neither the node's path nor any path lexically
  below it is selected, or the node's path is selected together with the path of every
  node lexically below it, the rows of the list and the nodes of the tree that are not
  listed alike, then pressing \<open>space\<close> twice restores the selection: the same set of
  paths, with the tree, the rows and the cursor unchanged. So it does for a node that is
  not a directory. Whenever the node was not selected before, the state is the very
  same, with the selection in its old order.
\<close>

theorem toggle_twice_restores:
  assumes cur: "nodeAt (flatList st) (cursor st) = Some node"
      and uniform:
        "fn_path node \<notin> set (selected st)
           \<and> (\<forall>s \<in> set (selected st). \<not> startsWith s (fn_path node @ ''/''))
         \<or> fn_path node \<in> set (selected st)
           \<and> (\<forall>n \<in> set (flatList st) \<union> set (knownNodes (tree st)).
                 startsWith (fn_path n) (fn_path node @ ''/'') \<longrightarrow> fn_path n \<in> set (selected st))
         \<or> \<not> fn_isDirectory node"
  shows "\<exists>st'. runKeys [keyNamed ''space'', keyNamed ''space''] st = Inr (Pending st')
           \<and> set (selected st') = set (selected st)
           \<and> tree st' = tree st \<and> flatList st' = flatList st \<and> cursor st' = cursor st
           \<and> (fn_path node \<notin> set (selected st) \<longrightarrow> st' = st)"
proof -
  let ?sel2 = "toggleSelection node (flatList st)
                 (toggleSelection node (flatList st) (selected st))"
  have run: "runKeys [keyNamed ''space'', keyNamed ''space''] st
      = Inr (Pending (st\<lparr>selected := ?sel2\<rparr>))"
    using cur by (simp add: handleKeypress_space)
  from uniform consider
      (unselected) "fn_path node \<notin> set (selected st)"
        "\<forall>s \<in> set (selected st). \<not> startsWith s (fn_path node @ ''/'')"
    | (selected) "fn_path node \<in> set (selected st)"
        "\<forall>n \<in> set (flatList st).
           startsWith (fn_path n) (fn_path node @ ''/'') \<longrightarrow> fn_path n \<in> set (selected st)"
    | (nondir) "\<not> fn_isDirectory node"
    by blast
  then show ?thesis
  proof cases
    case unselected
    then have "?sel2 = selected st" by (intro toggleSelection_twice)
    with run show ?thesis by simp
  next
    case selected
    have "set (descendantPaths node (flatList st)) \<subseteq> set (selected st)"
      using selected(2) unfolding descendantPaths_def by auto
    with selected(1) have "set ?sel2 = set (selected st)"
      by (intro toggleSelection_twice_selected)
    with run selected(1) show ?thesis by simp
  next
    case nondir
    from toggleSelection_twice_file [OF nondir, where nodes = "flatList st" and sel = "selected st"]
    have "set ?sel2 = set (selected st)"
      "fn_path node \<notin> set (selected st) \<Longrightarrow> ?sel2 = selected st"
      by blast+
    with run show ?thesis by auto
  qed
qed

theorem toggle_twice_restores_witness:
  "\<exists>st'. runKeys [keyNamed ''space'', keyNamed ''space'']
            (initialState (demoTree True) [''/h/d'', ''/h/d/a'', ''/h/e'', ''/h/d/b''])
          = Inr (Pending st')
        \<and> set (selected st') = set [''/h/d'', ''/h/d/a'', ''/h/e'', ''/h/d/b'']"
proof -
  let ?st = "initialState (demoTree True) [''/h/d'', ''/h/d/a'', ''/h/e'', ''/h/d/b'']"
  have cur: "nodeAt (flatList ?st) (cursor ?st) = Some (demoDir True)" by code_simp
  have sel: "selected ?st = [''/h/d'', ''/h/d/a'', ''/h/e'', ''/h/d/b'']"
    by (simp add: initialState_def)
  have rows: "flatList ?st = [demoDir True, demoA, demoB, demoE]" by code_simp
  have kn: "knownNodes (tree ?st) = [demoDir True, demoA, demoB, demoE]" by code_simp
  have paths: "fn_path (demoDir True) = ''/h/d''" "fn_path demoA = ''/h/d/a''"
      "fn_path demoB = ''/h/d/b''" "fn_path demoE = ''/h/e''"
    by code_simp+
  have uniform: "fn_path (demoDir True) \<notin> set (selected ?st)
           \<and> (\<forall>s \<in> set (selected ?st). \<not> startsWith s (fn_path (demoDir True) @ ''/''))
         \<or> fn_path (demoDir True) \<in> set (selected ?st)
           \<and> (\<forall>n \<in> set (flatList ?st) \<union> set (knownNodes (tree ?st)).
                 startsWith (fn_path n) (fn_path (demoDir True) @ ''/'')
                 \<longrightarrow> fn_path n \<in> set (selected ?st))
         \<or> \<not> fn_isDirectory (demoDir True)"
    unfolding kn rows sel by (simp add: paths startsWith_def)
  from toggle_twice_restores [OF cur uniform] show ?thesis
    unfolding sel by blast
qed

subsection \<open>Toggling a collapsed directory\<close>

text \<open>
  Claim C4 at the example tree. With \<open>/h/d\<close> collapsed the flattened list does not hold
  its children, and \<open>space\<close> on it selects the directory's path alone. After \<open>right\<close>,
  \<open>space\<close>, \<open>left\<close> the directory and both children are selected and the children are out
  of the list; \<open>space\<close> then removes the directory's path alone and leaves both children
  selected.
\<close>

theorem toggle_collapsed_directory:
  "flattenTree (demoTree False) = [demoDir False, demoE]
   \<and> selectionAfter [keyNamed ''space''] (initialState (demoTree False) []) = Some [''/h/d'']
   \<and> selectionAfter (map keyNamed [''right'', ''space'', ''left''])
       (initialState (demoTree False) []) = Some [''/h/d'', ''/h/d/a'', ''/h/d/b'']
   \<and> selectionAfter (map keyNamed [''right'', ''space'', ''left'', ''space''])
       (initialState (demoTree False) []) = Some [''/h/d/a'', ''/h/d/b'']"
  by code_simp

end
